theory Spec2Isabelle
  imports Main "HOL-Library.Word"
begin

section \<open>Go values used by report/id.go\<close>

text \<open>
  A Go string is an immutable sequence of bytes, so it is modelled as \<open>string\<close>
  (a list of 8-bit characters); \<open>len\<close> is \<open>length\<close>, \<open>+\<close> is \<open>@\<close>,
  \<open>s[i:]\<close> is \<open>drop i s\<close> and \<open>s[:i]\<close> is \<open>take i s\<close>.

  A run-time panic is a value: every function of the package that indexes a slice,
  slices a string or calls \<open>panic\<close> returns \<open>panic + 'a\<close>, with \<open>Inl\<close> for the panic.
  \<open>Panic f args\<close> stands for \<open>panic(fmt.Sprintf(f, args...))\<close>; the message is kept
  as the format and its arguments.
\<close>

datatype panic =
    IndexOutOfRange
  | SliceBoundsOutOfRange
  | Panic string "string list"

definition and_then :: "panic + 'a \<Rightarrow> ('a \<Rightarrow> panic + 'b) \<Rightarrow> panic + 'b" where
  "and_then r f = (case r of Inl e \<Rightarrow> Inl e | Inr v \<Rightarrow> f v)"

text \<open>\<open>xs[i]\<close>: panics when \<open>i\<close> is out of range.\<close>

definition idx :: "'a list \<Rightarrow> nat \<Rightarrow> panic + 'a" where
  "idx xs i = (if i < length xs then Inr (xs ! i) else Inl IndexOutOfRange)"

text \<open>\<open>s[i:]\<close>: panics when \<open>i > len(s)\<close>.\<close>

definition slice_from :: "string \<Rightarrow> nat \<Rightarrow> panic + string" where
  "slice_from s i = (if i \<le> length s then Inr (drop i s) else Inl SliceBoundsOutOfRange)"

subsection \<open>Package strings\<close>

text \<open>\<open>strings.HasPrefix\<close>: \<open>len(s) >= len(prefix) && s[0:len(prefix)] == prefix\<close>.\<close>

definition HasPrefix :: "string \<Rightarrow> string \<Rightarrow> bool" where
  "HasPrefix s p = (length p \<le> length s \<and> take (length p) s = p)"

text \<open>
  \<open>strings.Index\<close>: the index of the first instance of \<open>substr\<close> in \<open>s\<close>;
  \<open>None\<close> is Go's \<open>-1\<close>.
\<close>

fun Index :: "string \<Rightarrow> string \<Rightarrow> nat option" where
  "Index [] substr = (if substr = [] then Some 0 else None)"
| "Index (c # cs) substr =
     (if HasPrefix (c # cs) substr then Some 0 else map_option Suc (Index cs substr))"

text \<open>\<open>strings.Contains\<close>: \<open>Index(s, substr) >= 0\<close>.\<close>

definition Contains :: "string \<Rightarrow> string \<Rightarrow> bool" where
  "Contains s substr = (Index s substr \<noteq> None)"

text \<open>
  \<open>strings.Count\<close>: the number of non-overlapping instances of \<open>substr\<close> in \<open>s\<close>.
  For the empty \<open>substr\<close> Go returns the number of UTF-8 sequences plus one; the model
  counts bytes there, which is the same on ASCII text. No call in this package passes an
  empty separator.
\<close>

function Count :: "string \<Rightarrow> string \<Rightarrow> nat" where
  "Count s substr =
     (if substr = [] then length s + 1
      else case Index s substr of
             None \<Rightarrow> 0
           | Some i \<Rightarrow> Suc (Count (drop (i + length substr) s) substr))"
  by pat_completeness auto
termination
proof (relation "measure (\<lambda>(s, substr). length s)")
  show "wf (measure (\<lambda>(s, substr). length s))" by simp
next
  fix s substr :: string and i :: nat
  assume ne: "substr \<noteq> []" and ix: "Index s substr = Some i"
  from ne obtain c cs where substr: "substr = c # cs"
    by (cases substr) auto
  have "Index s substr = Some i \<Longrightarrow> i + length substr \<le> length s"
  proof (induction s arbitrary: i)
    case Nil
    then show ?case by (simp split: if_splits)
  next
    case (Cons a as)
    show ?case
    proof (cases "HasPrefix (a # as) substr")
      case True
      with Cons.prems show ?thesis by (simp add: HasPrefix_def)
    next
      case False
      with Cons.prems obtain j where j: "Index as substr = Some j" "i = Suc j"
        by auto
      from Cons.IH [OF j(1)] j(2) show ?thesis by simp
    qed
  qed
  from this [OF ix] have "i + length substr \<le> length s" .
  with substr have "length s - (i + length substr) < length s"
    by simp
  then show "((drop (i + length substr) s, substr), (s, substr))
               \<in> measure (\<lambda>(s, substr). length s)"
    by simp
qed

declare Count.simps [simp del]

text \<open>
  \<open>strings.explode\<close>, reached by \<open>SplitN\<close> only for an empty separator: one string per
  UTF-8 sequence, at most \<open>n\<close> of them. Modelled bytewise (equal to Go on ASCII text).
\<close>

definition explode :: "string \<Rightarrow> int \<Rightarrow> string list" where
  "explode s n =
     (let l = length s;
          m = (if n < 0 \<or> n > int l then l else nat n)
      in if m = 0 then [] else map (\<lambda>c. [c]) (take (m - 1) s) @ [drop (m - 1) s])"

text \<open>
  \<open>strings.genSplit\<close>. The loop \<open>for i < n\<close> runs with \<open>k = n - i\<close> iterations left:
  it stops when no separator is found, and the last field is the unsplit remainder.
\<close>

fun genSplit_loop :: "string \<Rightarrow> string \<Rightarrow> nat \<Rightarrow> nat \<Rightarrow> string list" where
  "genSplit_loop s sep sepSave 0 = [s]"
| "genSplit_loop s sep sepSave (Suc k) =
     (case Index s sep of
        None \<Rightarrow> [s]
      | Some m \<Rightarrow>
          take (m + sepSave) s # genSplit_loop (drop (m + length sep) s) sep sepSave k)"

definition genSplit :: "string \<Rightarrow> string \<Rightarrow> nat \<Rightarrow> int \<Rightarrow> string list" where
  "genSplit s sep sepSave n =
     (if n = 0 then []
      else if sep = [] then explode s n
      else
        let n1 = (if n < 0 then int (Count s sep) + 1 else n);
            n2 = (if n1 > int (length s) + 1 then int (length s) + 1 else n1)
        in genSplit_loop s sep sepSave (nat (n2 - 1)))"

text \<open>\<open>strings.SplitN(s, sep, n)\<close> and \<open>strings.Split(s, sep)\<close>.\<close>

definition SplitN :: "string \<Rightarrow> string \<Rightarrow> int \<Rightarrow> string list" where
  "SplitN s sep n = genSplit s sep 0 n"

definition Split :: "string \<Rightarrow> string \<Rightarrow> string list" where
  "Split s sep = genSplit s sep 0 (- 1)"

text \<open>\<open>strings.Join\<close>.\<close>

fun Join :: "string list \<Rightarrow> string \<Rightarrow> string" where
  "Join [] sep = []"
| "Join [x] sep = x"
| "Join (x # y # ys) sep = x @ sep @ Join (y # ys) sep"

subsection \<open>Package net\<close>

text \<open>
  \<open>net.IP\<close> is a slice of bytes; the \<open>nil\<close> IP that \<open>net.ParseIP\<close> returns for
  text that is not an IP literal is \<open>None\<close>. The parser follows the implementation of
  package net that scans for the first \<open>.\<close> or \<open>:\<close> and then calls \<open>parseIPv4\<close>
  or \<open>parseIPv6\<close>; an IPv4 address is returned in its 16-byte form. It is the
  parser of the Go releases this package was written for; later releases are
  stricter on some texts (leading zeros in an IPv4 octet, for one). The properties
  below evaluate it on \<open>8.8.8.8\<close>, \<open>127.0.0.1\<close> and \<open>10.0.0.1\<close> and use that it
  rejects text with a \<open>;\<close>, where the releases agree.
\<close>

type_synonym byte = "8 word"
type_synonym IP = "byte list"

definition ord :: "char \<Rightarrow> int" where
  "ord c = of_char c"

definition IPv4len :: nat where
  "IPv4len = 4"

definition IPv6len :: nat where
  "IPv6len = 16"

definition v4InV6Prefix :: IP where
  "v4InV6Prefix = [0, 0, 0, 0, 0, 0, 0, 0, 0, 0, 0xff, 0xff]"

definition IPv4 :: "byte \<Rightarrow> byte \<Rightarrow> byte \<Rightarrow> byte \<Rightarrow> IP" where
  "IPv4 a b c d = v4InV6Prefix @ [a, b, c, d]"

definition IPv6loopback :: IP where
  "IPv6loopback = [0, 0, 0, 0, 0, 0, 0, 0, 0, 0, 0, 0, 0, 0, 0, 1]"

definition big :: int where
  "big = 0xFFFFFF"

text \<open>
  \<open>dtoi(s)\<close>: decimal to integer; returns the number, the count of characters
  consumed and success. The loop carries the number \<open>n\<close> and the index \<open>i\<close>.
  The number stays below \<open>10 * big\<close>, so Go's \<open>int\<close> does not overflow and is
  modelled by \<open>int\<close>; \<open>byte(n)\<close> is \<open>of_int n\<close> on 8-bit words.
\<close>

fun dtoi_loop :: "string \<Rightarrow> int \<Rightarrow> nat \<Rightarrow> int \<times> nat \<times> bool" where
  "dtoi_loop [] n i = (if i = 0 then (0, 0, False) else (n, i, True))"
| "dtoi_loop (c # cs) n i =
     (if ord CHR ''0'' \<le> ord c \<and> ord c \<le> ord CHR ''9'' then
        (let n1 = n * 10 + (ord c - ord CHR ''0'')
         in if n1 \<ge> big then (big, i, False) else dtoi_loop cs n1 (Suc i))
      else if i = 0 then (0, 0, False) else (n, i, True))"

definition dtoi :: "string \<Rightarrow> int \<times> nat \<times> bool" where
  "dtoi s = dtoi_loop s 0 0"

text \<open>
  \<open>xtoi(s)\<close>: hexadecimal to integer, with the same results as \<open>dtoi\<close>. The three
  branches of the source's \<open>if\<close> chain give the digit; \<open>None\<close> is its \<open>break\<close>.
\<close>

fun xtoi_loop :: "string \<Rightarrow> int \<Rightarrow> nat \<Rightarrow> int \<times> nat \<times> bool" where
  "xtoi_loop [] n i = (if i = 0 then (0, i, False) else (n, i, True))"
| "xtoi_loop (c # cs) n i =
     (let digit =
        (if ord CHR ''0'' \<le> ord c \<and> ord c \<le> ord CHR ''9'' then Some (ord c - ord CHR ''0'')
         else if ord CHR ''a'' \<le> ord c \<and> ord c \<le> ord CHR ''f'' then Some (ord c - ord CHR ''a'' + 10)
         else if ord CHR ''A'' \<le> ord c \<and> ord c \<le> ord CHR ''F'' then Some (ord c - ord CHR ''A'' + 10)
         else None)
      in case digit of
           None \<Rightarrow> (if i = 0 then (0, i, False) else (n, i, True))
         | Some d \<Rightarrow>
             (let n1 = n * 16 + d
              in if n1 \<ge> big then (0, i, False) else xtoi_loop cs n1 (Suc i)))"

definition xtoi :: "string \<Rightarrow> int \<times> nat \<times> bool" where
  "xtoi s = xtoi_loop s 0 0"

text \<open>
  \<open>parseIPv4(s)\<close>: four decimal octets separated by dots, nothing after them.
  The loop \<open>for i := 0; i < IPv4len; i++\<close> returns \<open>None\<close> where the source
  returns \<open>nil\<close>, and the rest of the string with the octets when it runs to its end.
\<close>

function parseIPv4_loop :: "string \<Rightarrow> nat \<Rightarrow> byte list \<Rightarrow> (string \<times> byte list) option" where
  "parseIPv4_loop s i p =
     (if \<not> i < IPv4len then Some (s, p)
      else if s = [] then None
      else if i > 0 \<and> hd s \<noteq> CHR ''.'' then None
      else
        let s1 = (if i > 0 then tl s else s)
        in case dtoi s1 of (n, c, ok) \<Rightarrow>
             if \<not> ok \<or> n > 0xFF then None
             else parseIPv4_loop (drop c s1) (Suc i) (p[i := of_int n]))"
  by pat_completeness auto
termination
  by (relation "measure (\<lambda>(s, i, p). IPv4len - i)") auto

declare parseIPv4_loop.simps [simp del]

definition parseIPv4 :: "string \<Rightarrow> IP option" where
  "parseIPv4 s =
     (case parseIPv4_loop s 0 (replicate IPv4len 0) of
        None \<Rightarrow> None
      | Some (s1, p) \<Rightarrow>
          if s1 \<noteq> [] then None else Some (IPv4 (p ! 0) (p ! 1) (p ! 2) (p ! 3)))"

text \<open>
  \<open>parseIPv6(s)\<close>. The main loop parses hexadecimal groups followed by colons; it
  carries the rest of the string, the number \<open>i\<close> of bytes written, the position of
  the ellipsis (\<open>None\<close> is Go's \<open>-1\<close>) and the address. It returns \<open>None\<close> where the
  source returns \<open>nil\<close>, and the state where the source breaks out of the loop or
  the loop condition fails.
\<close>

function parseIPv6_loop ::
  "string \<Rightarrow> nat \<Rightarrow> nat option \<Rightarrow> IP \<Rightarrow> (string \<times> nat \<times> nat option \<times> IP) option" where
  "parseIPv6_loop s i ellipsis ip =
     (if \<not> i < IPv6len then Some (s, i, ellipsis, ip)
      else case xtoi s of (n, c, ok) \<Rightarrow>
        if \<not> ok \<or> n > 0xFFFF then None
        else if c < length s \<and> s ! c = CHR ''.'' then
          (if ellipsis = None \<and> i \<noteq> IPv6len - IPv4len then None
           else if i + IPv4len > IPv6len then None
           else case parseIPv4 s of
                  None \<Rightarrow> None
                | Some ip4 \<Rightarrow>
                    Some ([], i + IPv4len, ellipsis,
                          ip[i := ip4 ! 12, i + 1 := ip4 ! 13,
                             i + 2 := ip4 ! 14, i + 3 := ip4 ! 15]))
        else
          let ip1 = ip[i := of_int (drop_bit 8 n), i + 1 := of_int n];
              i1 = i + 2;
              s1 = drop c s
          in if s1 = [] then Some (s1, i1, ellipsis, ip1)
             else if hd s1 \<noteq> CHR '':'' \<or> length s1 = 1 then None
             else
               let s2 = tl s1
               in if hd s2 = CHR '':'' then
                    (if ellipsis \<noteq> None then None
                     else
                       let s3 = tl s2
                       in if s3 = [] then Some (s3, i1, Some i1, ip1)
                          else parseIPv6_loop s3 i1 (Some i1) ip1)
                  else parseIPv6_loop s2 i1 ellipsis ip1)"
  by pat_completeness auto
termination
  by (relation "measure (\<lambda>(s, i, ellipsis, ip). IPv6len - i)") auto

declare parseIPv6_loop.simps [simp del]

text \<open>
  After the loop: the whole string must be used; a short address is completed by
  moving the groups after the ellipsis to the end and zeroing the gap (two loops
  that count down).
\<close>

definition parseIPv6_rest :: "string \<Rightarrow> nat option \<Rightarrow> IP \<Rightarrow> IP option" where
  "parseIPv6_rest s0 ellipsis0 ip0 =
     (case parseIPv6_loop s0 0 ellipsis0 ip0 of
        None \<Rightarrow> None
      | Some (s, i, ellipsis, ip) \<Rightarrow>
          if s \<noteq> [] then None
          else if i < IPv6len then
            (case ellipsis of
               None \<Rightarrow> None
             | Some e \<Rightarrow>
                 let n = IPv6len - i;
                     ip1 = fold (\<lambda>j ip. ip[j + n := ip ! j]) (rev [e..<i]) ip;
                     ip2 = fold (\<lambda>j ip. ip[j := 0]) (rev [e..<e + n]) ip1
                 in Some ip2)
          else if ellipsis \<noteq> None then None
          else Some ip)"

definition parseIPv6 :: "string \<Rightarrow> IP option" where
  "parseIPv6 s =
     (let ip = replicate IPv6len 0
      in if length s \<ge> 2 \<and> s ! 0 = CHR '':'' \<and> s ! 1 = CHR '':'' then
           (if drop 2 s = [] then Some ip else parseIPv6_rest (drop 2 s) (Some 0) ip)
         else parseIPv6_rest s None ip)"

text \<open>\<open>net.ParseIP\<close>: the first \<open>.\<close> or \<open>:\<close> of the string selects the parser.\<close>

fun ParseIP_scan :: "string \<Rightarrow> string \<Rightarrow> IP option" where
  "ParseIP_scan s [] = None"
| "ParseIP_scan s (c # cs) =
     (if c = CHR ''.'' then parseIPv4 s
      else if c = CHR '':'' then parseIPv6 s
      else ParseIP_scan s cs)"

definition ParseIP :: "string \<Rightarrow> IP option" where
  "ParseIP s = ParseIP_scan s s"

text \<open>\<open>IP.To4\<close>, \<open>IP.Equal\<close> and \<open>IP.IsLoopback\<close>.\<close>

definition isZeros :: "IP \<Rightarrow> bool" where
  "isZeros p = list_all (\<lambda>b. b = 0) p"

definition To4 :: "IP \<Rightarrow> IP option" where
  "To4 ip =
     (if length ip = IPv4len then Some ip
      else if length ip = IPv6len \<and> isZeros (take 10 ip) \<and> ip ! 10 = 0xff \<and> ip ! 11 = 0xff
        then Some (take 4 (drop 12 ip))
      else None)"

definition Equal :: "IP \<Rightarrow> IP \<Rightarrow> bool" where
  "Equal ip x =
     (if length ip = length x then ip = x
      else if length ip = IPv4len \<and> length x = IPv6len
        then take 12 x = v4InV6Prefix \<and> ip = drop 12 x
      else if length ip = IPv6len \<and> length x = IPv4len
        then take 12 ip = v4InV6Prefix \<and> drop 12 ip = x
      else False)"

definition IsLoopback :: "IP \<Rightarrow> bool" where
  "IsLoopback ip =
     (case To4 ip of
        Some ip4 \<Rightarrow> ip4 ! 0 = 127
      | None \<Rightarrow> Equal ip IPv6loopback)"

section \<open>report/id.go\<close>

definition TheInternet :: string where
  "TheInternet = ''theinternet''"

definition ScopeDelim :: string where
  "ScopeDelim = '';''"

definition EdgeDelim :: string where
  "EdgeDelim = ''|''"

definition MakeAdjacencyID :: "string \<Rightarrow> string" where
  "MakeAdjacencyID srcNodeID = ''>'' @ srcNodeID"

definition ParseAdjacencyID :: "string \<Rightarrow> panic + (string \<times> bool)" where
  "ParseAdjacencyID adjacencyID =
     (if \<not> HasPrefix adjacencyID ''>'' then Inr ([], False)
      else and_then (slice_from adjacencyID 1) (\<lambda>r. Inr (r, True)))"

definition MakeEdgeID :: "string \<Rightarrow> string \<Rightarrow> string" where
  "MakeEdgeID srcNodeID dstNodeID = srcNodeID @ EdgeDelim @ dstNodeID"

definition ParseEdgeID :: "string \<Rightarrow> panic + (string \<times> string \<times> bool)" where
  "ParseEdgeID edgeID =
     (let fields = SplitN edgeID EdgeDelim 2
      in if length fields \<noteq> 2 then Inr ([], [], False)
         else and_then (idx fields 0) (\<lambda>f0.
              and_then (idx fields 1) (\<lambda>f1. Inr (f0, f1, True))))"

definition MakeProcessNodeID :: "string \<Rightarrow> string \<Rightarrow> string" where
  "MakeProcessNodeID hostID pid = hostID @ ScopeDelim @ pid"

definition MakeHostNodeID :: "string \<Rightarrow> string" where
  "MakeHostNodeID hostID = hostID @ ScopeDelim @ ''<host>''"

definition MakeContainerNodeID :: "string \<Rightarrow> string \<Rightarrow> string" where
  "MakeContainerNodeID hostID containerID = hostID @ ScopeDelim @ containerID"

definition ParseNodeID :: "string \<Rightarrow> panic + (string \<times> string \<times> bool)" where
  "ParseNodeID nodeID =
     (let fields = SplitN nodeID ScopeDelim 2
      in if length fields \<noteq> 2 then Inr ([], [], False)
         else and_then (idx fields 0) (\<lambda>f0.
              and_then (idx fields 1) (\<lambda>f1. Inr (f0, f1, True))))"

definition MakePseudoNodeID :: "string list \<Rightarrow> string" where
  "MakePseudoNodeID parts = Join (''pseudo'' # parts) ScopeDelim"

definition isLoopback :: "string \<Rightarrow> bool" where
  "isLoopback address =
     (case ParseIP address of
        None \<Rightarrow> False
      | Some ip \<Rightarrow> IsLoopback ip)"

definition MakeAddressNodeID :: "string \<Rightarrow> string \<Rightarrow> string" where
  "MakeAddressNodeID hostID address =
     (let hostID = (if \<not> isLoopback address then [] else hostID)
      in hostID @ ScopeDelim @ address)"

definition MakeEndpointNodeID :: "string \<Rightarrow> string \<Rightarrow> string \<Rightarrow> string" where
  "MakeEndpointNodeID hostID address port =
     MakeAddressNodeID hostID address @ ScopeDelim @ port"

definition EndpointIDAddresser :: "string \<Rightarrow> panic + IP option" where
  "EndpointIDAddresser id' =
     (let fields = SplitN id' ScopeDelim 3
      in if length fields \<noteq> 3 then Inr None
         else and_then (idx fields 1) (\<lambda>f1. Inr (ParseIP f1)))"

definition AddressIDAddresser :: "string \<Rightarrow> panic + IP option" where
  "AddressIDAddresser id' =
     (let fields = SplitN id' ScopeDelim 2
      in if length fields \<noteq> 2 then Inr None
         else and_then (idx fields 1) (\<lambda>f1. Inr (ParseIP f1)))"

definition PanicIDAddresser :: "string \<Rightarrow> panic + IP option" where
  "PanicIDAddresser id' = Inl (Panic ''PanicIDAddresser called on %q'' [id'])"

section \<open>Vocabulary of the specification\<close>

text \<open>
  A raw component is delimiter-free when it contains neither the scope delimiter nor
  the edge delimiter.
\<close>

definition no_delims :: "string \<Rightarrow> bool" where
  "no_delims s = (\<not> Contains s ScopeDelim \<and> \<not> Contains s EdgeDelim)"

text \<open>
  The scope-delimited fields of an ID: the ID cut at every scope delimiter, one field
  more than there are delimiters.
\<close>

definition scope_fields :: "string \<Rightarrow> string list" where
  "scope_fields s = Split s ScopeDelim"

section \<open>The string library on one-character separators\<close>

lemma HasPrefix_single: "HasPrefix s [c] \<longleftrightarrow> (\<exists>r. s = c # r)"
  by (cases s) (auto simp: HasPrefix_def)

lemma Index_single_absent: "c \<notin> set s \<Longrightarrow> Index s [c] = None"
  by (induction s) (auto simp: HasPrefix_single)

lemma Index_single_first: "c \<notin> set a \<Longrightarrow> Index (a @ c # r) [c] = Some (length a)"
  by (induction a) (auto simp: HasPrefix_single)

lemma Contains_single: "Contains s [c] \<longleftrightarrow> c \<in> set s"
proof (cases "c \<in> set s")
  case False
  then show ?thesis
    by (simp add: Contains_def Index_single_absent)
next
  case True
  then obtain a r where "s = a @ c # r" "c \<notin> set a"
    by (auto dest: split_list_first)
  with True show ?thesis
    by (simp add: Contains_def Index_single_first)
qed

lemma Index_bound: "Index s substr = Some i \<Longrightarrow> i + length substr \<le> length s"
proof (induction s arbitrary: i)
  case Nil
  then show ?case by (simp split: if_splits)
next
  case (Cons a as)
  show ?case
  proof (cases "HasPrefix (a # as) substr")
    case True
    with Cons.prems show ?thesis by (simp add: HasPrefix_def)
  next
    case False
    with Cons.prems obtain j where j: "Index as substr = Some j" "i = Suc j"
      by auto
    from Cons.IH [OF j(1)] j(2) show ?thesis by simp
  qed
qed

lemma genSplit_loop_saturated:
  "sep \<noteq> [] \<Longrightarrow> length s \<le> k \<Longrightarrow>
   genSplit_loop s sep sv (Suc k) = genSplit_loop s sep sv k"
proof (induction k arbitrary: s)
  case 0
  then show ?case by simp
next
  case (Suc k)
  show ?case
  proof (cases "Index s sep")
    case None
    then show ?thesis by simp
  next
    case (Some m)
    from Index_bound [OF Some] Suc.prems
    have "length (drop (m + length sep) s) \<le> k"
      by (cases sep) auto
    from Suc.IH [OF Suc.prems(1) this] Some show ?thesis
      by simp
  qed
qed

lemma genSplit_loop_clamp:
  "sep \<noteq> [] \<Longrightarrow> genSplit_loop s sep sv (min k (length s)) = genSplit_loop s sep sv k"
proof (induction k)
  case 0
  then show ?case by simp
next
  case (Suc k)
  show ?case
  proof (cases "length s \<le> k")
    case True
    then have "min (Suc k) (length s) = min k (length s)" by simp
    with Suc True genSplit_loop_saturated [of sep s k sv] show ?thesis
      by simp
  next
    case False
    then have "min (Suc k) (length s) = Suc k" by simp
    then show ?thesis by simp
  qed
qed

lemma SplitN_pos:
  assumes "sep \<noteq> []" and "0 < n"
  shows "SplitN s sep n = genSplit_loop s sep 0 (nat (n - 1))"
proof -
  have "nat ((if n > int (length s) + 1 then int (length s) + 1 else n) - 1)
          = min (nat (n - 1)) (length s)"
    using assms(2) by auto
  with assms show ?thesis
    by (simp add: SplitN_def genSplit_def Let_def genSplit_loop_clamp del: genSplit_loop.simps)
qed

lemma Split_loop:
  assumes "sep \<noteq> []"
  shows "Split s sep = genSplit_loop s sep 0 (Count s sep)"
proof -
  have "nat ((if int (Count s sep) + 1 > int (length s) + 1 then int (length s) + 1
              else int (Count s sep) + 1) - 1)
          = min (Count s sep) (length s)"
    by auto
  with assms show ?thesis
    by (simp add: Split_def genSplit_def Let_def genSplit_loop_clamp del: genSplit_loop.simps)
qed

lemma Count_single: "Count s [c] = count_list s c"
proof (induction s rule: length_induct)
  case (1 s)
  show ?case
  proof (cases "c \<in> set s")
    case False
    then show ?thesis
      by (simp add: Count.simps [of s] Index_single_absent)
  next
    case True
    then obtain a r where s: "s = a @ c # r" "c \<notin> set a"
      by (auto dest: split_list_first)
    then have "length r < length s" by simp
    with 1 have "Count r [c] = count_list r c" by blast
    moreover from s(2) have "Count (a @ c # r) [c] = Suc (Count r [c])"
      by (subst Count.simps) (simp add: Index_single_first)
    ultimately show ?thesis
      using s by simp
  qed
qed

lemma length_genSplit_loop_single:
  "length (genSplit_loop s [c] sv k) = Suc (min k (count_list s c))"
proof (induction k arbitrary: s)
  case 0
  then show ?case by simp
next
  case (Suc k)
  show ?case
  proof (cases "c \<in> set s")
    case False
    then show ?thesis
      by (simp add: Index_single_absent)
  next
    case True
    then obtain a r where s: "s = a @ c # r" "c \<notin> set a"
      by (auto dest: split_list_first)
    with Suc [of r] show ?thesis
      by (simp add: Index_single_first)
  qed
qed

section \<open>Parsers and constructors\<close>

lemma SplitN_2_first:
  "c \<notin> set a \<Longrightarrow> SplitN (a @ c # r) [c] 2 = [a, r]"
  by (simp add: SplitN_pos Index_single_first)

lemma SplitN_2_absent:
  "c \<notin> set s \<Longrightarrow> SplitN s [c] 2 = [s]"
  by (simp add: SplitN_pos Index_single_absent)

lemma ParseNodeID_first:
  "\<not> Contains a ScopeDelim \<Longrightarrow> ParseNodeID (a @ ScopeDelim @ r) = Inr (a, r, True)"
  by (simp add: ParseNodeID_def ScopeDelim_def Contains_single SplitN_2_first
      idx_def and_then_def)

lemma ParseNodeID_absent:
  "\<not> Contains s ScopeDelim \<Longrightarrow> ParseNodeID s = Inr ([], [], False)"
  by (simp add: ParseNodeID_def ScopeDelim_def Contains_single SplitN_2_absent)

lemma ParseEdgeID_first:
  "\<not> Contains a EdgeDelim \<Longrightarrow> ParseEdgeID (a @ EdgeDelim @ r) = Inr (a, r, True)"
  by (simp add: ParseEdgeID_def EdgeDelim_def Contains_single SplitN_2_first
      idx_def and_then_def)

lemma ParseEdgeID_absent:
  "\<not> Contains s EdgeDelim \<Longrightarrow> ParseEdgeID s = Inr ([], [], False)"
  by (simp add: ParseEdgeID_def EdgeDelim_def Contains_single SplitN_2_absent)

lemma ParseNodeID_returns: "\<exists>r. ParseNodeID s = Inr r"
  by (cases "length (SplitN s ScopeDelim 2) = 2")
     (auto simp: ParseNodeID_def idx_def and_then_def Let_def)

lemma ParseEdgeID_returns: "\<exists>r. ParseEdgeID s = Inr r"
  by (cases "length (SplitN s EdgeDelim 2) = 2")
     (auto simp: ParseEdgeID_def idx_def and_then_def Let_def)

lemma ParseAdjacencyID_returns: "\<exists>r. ParseAdjacencyID s = Inr r"
  by (cases s) (auto simp: ParseAdjacencyID_def HasPrefix_def slice_from_def and_then_def)

text \<open>
  Claim C1. For every hostID and pid that contain neither the scope delimiter nor the
  edge delimiter, parsing the process node ID built from them gives back
  \<open>(hostID, pid, true)\<close>; the same holds for the container node ID built from a
  delimiter-free containerID.
\<close>

theorem ParseNodeID_roundtrip:
  "(no_delims hostID \<and> no_delims pid \<longrightarrow>
      ParseNodeID (MakeProcessNodeID hostID pid) = Inr (hostID, pid, True)) \<and>
   (no_delims hostID \<and> no_delims containerID \<longrightarrow>
      ParseNodeID (MakeContainerNodeID hostID containerID) = Inr (hostID, containerID, True))"
  by (simp add: no_delims_def MakeProcessNodeID_def MakeContainerNodeID_def ParseNodeID_first)

lemma no_delims_iff: "no_delims s \<longleftrightarrow> CHR '';'' \<notin> set s \<and> CHR ''|'' \<notin> set s"
  by (simp add: no_delims_def ScopeDelim_def EdgeDelim_def Contains_single)

text \<open>The round trip at host \<open>host1\<close>, pid \<open>4242\<close> and container \<open>0a1b2c\<close>.\<close>

theorem ParseNodeID_roundtrip_witness:
  "no_delims ''host1'' \<and> no_delims ''4242'' \<and> no_delims ''0a1b2c''
   \<and> ParseNodeID (MakeProcessNodeID ''host1'' ''4242'') = Inr (''host1'', ''4242'', True)
   \<and> ParseNodeID (MakeContainerNodeID ''host1'' ''0a1b2c'') = Inr (''host1'', ''0a1b2c'', True)"
proof -
  have h: "no_delims ''host1''" "no_delims ''4242''" "no_delims ''0a1b2c''"
    by (simp_all add: no_delims_iff)
  with ParseNodeID_roundtrip [of "''host1''" "''4242''" "''0a1b2c''"] show ?thesis
    by blast
qed

text \<open>
  Claim C4. For node IDs \<open>a\<close> and \<open>b\<close> that contain no edge delimiter, parsing the
  edge ID built from them gives back \<open>(a, b, true)\<close>, and the edge from \<open>a\<close> to
  \<open>b\<close> differs from the edge from \<open>b\<close> to \<open>a\<close> whenever \<open>a \<noteq> b\<close>.
\<close>

theorem ParseEdgeID_roundtrip:
  assumes "\<not> Contains a EdgeDelim" and "\<not> Contains b EdgeDelim"
  shows "ParseEdgeID (MakeEdgeID a b) = Inr (a, b, True) \<and>
         (a \<noteq> b \<longrightarrow> MakeEdgeID a b \<noteq> MakeEdgeID b a)"
proof -
  have ab: "ParseEdgeID (MakeEdgeID a b) = Inr (a, b, True)"
    using assms(1) by (simp add: MakeEdgeID_def ParseEdgeID_first)
  have ba: "ParseEdgeID (MakeEdgeID b a) = Inr (b, a, True)"
    using assms(2) by (simp add: MakeEdgeID_def ParseEdgeID_first)
  have "a = b" if "MakeEdgeID a b = MakeEdgeID b a"
  proof -
    from that have "ParseEdgeID (MakeEdgeID a b) = ParseEdgeID (MakeEdgeID b a)"
      by (rule arg_cong)
    then have "(a, b, True) = (b, a, True)"
      unfolding ab ba by (rule Inr_inject)
    then show ?thesis by (rule Pair_inject)
  qed
  with ab show ?thesis by blast
qed

text \<open>The edge between two address nodes, in both directions.\<close>

theorem ParseEdgeID_roundtrip_witness:
  "\<not> Contains ''h1;10.0.0.1'' EdgeDelim \<and> \<not> Contains ''h2;10.0.0.2'' EdgeDelim
   \<and> ParseEdgeID (MakeEdgeID ''h1;10.0.0.1'' ''h2;10.0.0.2'')
        = Inr (''h1;10.0.0.1'', ''h2;10.0.0.2'', True)
   \<and> MakeEdgeID ''h1;10.0.0.1'' ''h2;10.0.0.2'' \<noteq> MakeEdgeID ''h2;10.0.0.2'' ''h1;10.0.0.1''"
proof -
  have a: "\<not> Contains ''h1;10.0.0.1'' EdgeDelim"
    by (simp add: EdgeDelim_def Contains_single)
  have b: "\<not> Contains ''h2;10.0.0.2'' EdgeDelim"
    by (simp add: EdgeDelim_def Contains_single)
  from ParseEdgeID_roundtrip [OF a b] a b show ?thesis
    by simp
qed

text \<open>
  Claim C5. For every string \<open>x\<close>, parsing the adjacency ID of \<open>x\<close> gives back
  \<open>(x, true)\<close>; for every string \<open>y\<close> that does not start with \<open>>\<close> the parser
  returns the empty string and false.
\<close>

theorem ParseAdjacencyID_roundtrip:
  "ParseAdjacencyID (MakeAdjacencyID x) = Inr (x, True) \<and>
   (\<not> HasPrefix y ''>'' \<longrightarrow> ParseAdjacencyID y = Inr ([], False))"
  by (simp add: ParseAdjacencyID_def MakeAdjacencyID_def HasPrefix_def slice_from_def
      and_then_def)

text \<open>A node ID is not an adjacency ID until it is marked.\<close>

theorem ParseAdjacencyID_roundtrip_witness:
  "ParseAdjacencyID (MakeAdjacencyID ''h1;10.0.0.1'') = Inr (''h1;10.0.0.1'', True) \<and>
   \<not> HasPrefix ''h1;10.0.0.1'' ''>'' \<and> ParseAdjacencyID ''h1;10.0.0.1'' = Inr ([], False)"
  using ParseAdjacencyID_roundtrip [of "''h1;10.0.0.1''" "''h1;10.0.0.1''"]
  by (simp add: HasPrefix_def)

text \<open>
  Claim C6. Each of the three parsers, given a string \<open>s\<close> without its delimiter or
  prefix, returns false with empty strings for all components; so it does on the
  empty string; and on any string \<open>t\<close> whatever each parser returns a value, that is,
  it does not panic.
\<close>

theorem parsers_fail_cleanly:
  "(\<not> Contains s ScopeDelim \<longrightarrow> ParseNodeID s = Inr ([], [], False)) \<and>
   (\<not> Contains s EdgeDelim \<longrightarrow> ParseEdgeID s = Inr ([], [], False)) \<and>
   (\<not> HasPrefix s ''>'' \<longrightarrow> ParseAdjacencyID s = Inr ([], False)) \<and>
   ParseNodeID [] = Inr ([], [], False) \<and>
   ParseEdgeID [] = Inr ([], [], False) \<and>
   ParseAdjacencyID [] = Inr ([], False) \<and>
   (\<exists>r. ParseNodeID t = Inr r) \<and>
   (\<exists>r. ParseEdgeID t = Inr r) \<and>
   (\<exists>r. ParseAdjacencyID t = Inr r)"
proof -
  have "\<not> Contains [] ScopeDelim" "\<not> Contains [] EdgeDelim"
    by (simp_all add: ScopeDelim_def EdgeDelim_def Contains_single)
  then have "ParseNodeID [] = Inr ([], [], False)" "ParseEdgeID [] = Inr ([], [], False)"
    by (simp_all add: ParseNodeID_absent ParseEdgeID_absent)
  moreover have "\<not> HasPrefix s ''>'' \<longrightarrow> ParseAdjacencyID s = Inr ([], False)" for s
    by (simp add: ParseAdjacencyID_def)
  moreover have "\<not> HasPrefix [] ''>''"
    by (simp add: HasPrefix_def)
  ultimately show ?thesis
    using ParseNodeID_absent [of s] ParseEdgeID_absent [of s]
      ParseNodeID_returns [of t] ParseEdgeID_returns [of t] ParseAdjacencyID_returns [of t]
    by blast
qed

text \<open>
  The bare word \<open>theinternet\<close> fails in all three parsers, and a string with every
  delimiter is parsed by all three without a panic.
\<close>

theorem parsers_fail_cleanly_witness:
  "\<not> Contains ''theinternet'' ScopeDelim \<and> ParseNodeID ''theinternet'' = Inr ([], [], False) \<and>
   \<not> Contains ''theinternet'' EdgeDelim \<and> ParseEdgeID ''theinternet'' = Inr ([], [], False) \<and>
   \<not> HasPrefix ''theinternet'' ''>'' \<and> ParseAdjacencyID ''theinternet'' = Inr ([], False) \<and>
   (\<exists>r. ParseNodeID ''>a;b|c'' = Inr r) \<and>
   (\<exists>r. ParseEdgeID ''>a;b|c'' = Inr r) \<and>
   (\<exists>r. ParseAdjacencyID ''>a;b|c'' = Inr r)"
  using parsers_fail_cleanly [of "''theinternet''" "''>a;b|c''"]
  by (simp add: ScopeDelim_def EdgeDelim_def Contains_single HasPrefix_def)

text \<open>
  Claim C7. The host node ID of \<open>h\<close> is \<open>h\<close>, the scope delimiter \<open>;\<close> and the
  marker \<open><host>\<close>; for \<open>probe-42\<close> it is \<open>probe-42;<host>\<close>, which parses to
  \<open>(probe-42, <host>, true)\<close>.
\<close>

theorem MakeHostNodeID_marker:
  "MakeHostNodeID h = h @ ScopeDelim @ ''<host>'' \<and>
   ScopeDelim = '';'' \<and>
   MakeHostNodeID ''probe-42'' = ''probe-42;<host>'' \<and>
   ParseNodeID ''probe-42;<host>'' = Inr (''probe-42'', ''<host>'', True)"
proof -
  have "\<not> Contains ''probe-42'' ScopeDelim"
    by (simp add: ScopeDelim_def Contains_single)
  from ParseNodeID_first [OF this, of "''<host>''"] show ?thesis
    by (simp add: MakeHostNodeID_def ScopeDelim_def)
qed

text \<open>The marker on the host ID of the Internet pseudo node's name.\<close>

theorem MakeHostNodeID_marker_witness:
  "MakeHostNodeID ''theinternet'' = ''theinternet;<host>''"
  using MakeHostNodeID_marker [of "''theinternet''"]
  by simp

text \<open>
  Claim C8. \<open>PanicIDAddresser\<close> panics on every input, with the message formatted
  from the input, and returns no value.
\<close>

theorem PanicIDAddresser_panics:
  "PanicIDAddresser x = Inl (Panic ''PanicIDAddresser called on %q'' [x]) \<and>
   (\<nexists>v. PanicIDAddresser x = Inr v)"
  by (simp add: PanicIDAddresser_def)

text \<open>The panic on an address node ID.\<close>

theorem PanicIDAddresser_panics_witness:
  "PanicIDAddresser '';10.0.0.1'' = Inl (Panic ''PanicIDAddresser called on %q'' ['';10.0.0.1''])"
  using PanicIDAddresser_panics [of "'';10.0.0.1''"]
  by simp

text \<open>
  Claim C9. A process node ID and a container node ID built from the same host ID
  and the same second part are the same string.
\<close>

theorem process_container_same_id:
  "MakeProcessNodeID h x = MakeContainerNodeID h x"
  by (simp add: MakeProcessNodeID_def MakeContainerNodeID_def)

text \<open>Process 1 on a host and a container named 1 on the same host.\<close>

theorem process_container_same_id_witness:
  "MakeProcessNodeID ''host1'' ''1'' = ''host1;1'' \<and> MakeContainerNodeID ''host1'' ''1'' = ''host1;1''"
  using process_container_same_id [of "''host1''" "''1''"]
  by (simp add: MakeContainerNodeID_def ScopeDelim_def)

lemma MakePseudoNodeID_Cons:
  "MakePseudoNodeID (p # ps) = ''pseudo'' @ ScopeDelim @ Join (p # ps) ScopeDelim"
  by (simp add: MakePseudoNodeID_def)

text \<open>
  Claim C10. With no parts the pseudo node ID is exactly \<open>pseudo\<close>, which has no
  scope delimiter and which \<open>ParseNodeID\<close> rejects; with one part or more the ID
  contains the scope delimiter and parses with host ID \<open>pseudo\<close>, the remainder
  being the parts joined by the delimiter.
\<close>

theorem MakePseudoNodeID_parse:
  "MakePseudoNodeID [] = ''pseudo'' \<and>
   \<not> Contains (MakePseudoNodeID []) ScopeDelim \<and>
   ParseNodeID (MakePseudoNodeID []) = Inr ([], [], False) \<and>
   (parts \<noteq> [] \<longrightarrow>
      Contains (MakePseudoNodeID parts) ScopeDelim \<and>
      ParseNodeID (MakePseudoNodeID parts) = Inr (''pseudo'', Join parts ScopeDelim, True))"
proof -
  have nil: "MakePseudoNodeID [] = ''pseudo''"
    by (simp add: MakePseudoNodeID_def)
  have absent: "\<not> Contains ''pseudo'' ScopeDelim"
    by (simp add: ScopeDelim_def Contains_single)
  have "Contains (MakePseudoNodeID parts) ScopeDelim \<and>
        ParseNodeID (MakePseudoNodeID parts) = Inr (''pseudo'', Join parts ScopeDelim, True)"
    if "parts \<noteq> []"
  proof -
    from that obtain p ps where parts: "parts = p # ps"
      by (cases parts) auto
    have "Contains (''pseudo'' @ ScopeDelim @ Join (p # ps) ScopeDelim) ScopeDelim"
      by (simp add: ScopeDelim_def Contains_single)
    with ParseNodeID_first [OF absent, of "Join (p # ps) ScopeDelim"] parts show ?thesis
      by (simp only: MakePseudoNodeID_Cons)
  qed
  with nil absent ParseNodeID_absent [OF absent] show ?thesis
    by simp
qed

text \<open>The pseudo node of the Internet.\<close>

theorem MakePseudoNodeID_parse_witness:
  "[TheInternet] \<noteq> [] \<and>
   MakePseudoNodeID [TheInternet] = ''pseudo;theinternet'' \<and>
   Contains (MakePseudoNodeID [TheInternet]) ScopeDelim \<and>
   ParseNodeID (MakePseudoNodeID [TheInternet]) = Inr (''pseudo'', ''theinternet'', True)"
  using MakePseudoNodeID_parse [of "[TheInternet]"]
  by (simp add: MakePseudoNodeID_def TheInternet_def ScopeDelim_def)

section \<open>No IP literal contains the scope delimiter\<close>

text \<open>
  Each parser of package net accepts a string only after using all of it, and the
  characters it uses are digits, dots and colons: a string accepted by \<open>ParseIP\<close>
  has no \<open>;\<close>.
\<close>

lemma dtoi_loop_consumed:
  "dtoi_loop s n i = (n', c, True) \<Longrightarrow>
   \<exists>k. c = i + k \<and> k \<le> length s \<and> CHR '';'' \<notin> set (take k s)"
proof (induction s arbitrary: n i)
  case Nil
  then show ?case by (simp split: if_splits)
next
  case (Cons a as)
  show ?case
  proof (cases "ord CHR ''0'' \<le> ord a \<and> ord a \<le> ord CHR ''9''")
    case False
    with Cons.prems have "c = i" by (simp split: if_splits)
    then show ?thesis by (intro exI [of _ 0]) simp
  next
    case True
    then have a: "a \<noteq> CHR '';''"
      by (auto simp: ord_def)
    from True Cons.prems
    have "dtoi_loop as (n * 10 + (ord a - ord CHR ''0'')) (Suc i) = (n', c, True)"
      by (simp add: Let_def split: if_splits)
    from Cons.IH [OF this] obtain k where
      "c = Suc i + k" "k \<le> length as" "CHR '';'' \<notin> set (take k as)"
      by blast
    with a show ?thesis
      by (intro exI [of _ "Suc k"]) simp
  qed
qed

lemma dtoi_consumed:
  "dtoi s = (n, c, True) \<Longrightarrow> c \<le> length s \<and> CHR '';'' \<notin> set (take c s)"
  using dtoi_loop_consumed [of s 0 0 n c] by (simp add: dtoi_def)

lemma xtoi_loop_consumed:
  "xtoi_loop s n i = (n', c, True) \<Longrightarrow>
   \<exists>k. c = i + k \<and> k \<le> length s \<and> CHR '';'' \<notin> set (take k s)"
proof (induction s arbitrary: n i)
  case Nil
  then show ?case by (simp split: if_splits)
next
  case (Cons a as)
  define digit where "digit =
        (if ord CHR ''0'' \<le> ord a \<and> ord a \<le> ord CHR ''9'' then Some (ord a - ord CHR ''0'')
         else if ord CHR ''a'' \<le> ord a \<and> ord a \<le> ord CHR ''f'' then Some (ord a - ord CHR ''a'' + 10)
         else if ord CHR ''A'' \<le> ord a \<and> ord a \<le> ord CHR ''F'' then Some (ord a - ord CHR ''A'' + 10)
         else None)"
  have step: "xtoi_loop (a # as) n i =
    (case digit of
       None \<Rightarrow> (if i = 0 then (0, i, False) else (n, i, True))
     | Some d \<Rightarrow>
         (let n1 = n * 16 + d
          in if n1 \<ge> big then (0, i, False) else xtoi_loop as n1 (Suc i)))"
    by (simp add: digit_def Let_def)
  show ?case
  proof (cases digit)
    case None
    with Cons.prems step have "c = i" by (simp split: if_splits)
    then show ?thesis by (intro exI [of _ 0]) simp
  next
    case (Some d)
    then have a: "a \<noteq> CHR '';''"
      by (auto simp: digit_def ord_def split: if_splits)
    from Some Cons.prems step
    have "xtoi_loop as (n * 16 + d) (Suc i) = (n', c, True)"
      by (simp add: Let_def split: if_splits)
    from Cons.IH [OF this] obtain k where
      "c = Suc i + k" "k \<le> length as" "CHR '';'' \<notin> set (take k as)"
      by blast
    with a show ?thesis
      by (intro exI [of _ "Suc k"]) simp
  qed
qed

lemma xtoi_consumed:
  "xtoi s = (n, c, True) \<Longrightarrow> c \<le> length s \<and> CHR '';'' \<notin> set (take c s)"
  using xtoi_loop_consumed [of s 0 0 n c] by (simp add: xtoi_def)

lemma parseIPv4_loop_consumed:
  "parseIPv4_loop s i p = Some (s', p') \<Longrightarrow> \<exists>pre. s = pre @ s' \<and> CHR '';'' \<notin> set pre"
proof (induction s i p rule: parseIPv4_loop.induct)
  case (1 s i p)
  show ?case
  proof (cases "i < IPv4len")
    case False
    with "1.prems" have "s' = s"
      by (simp add: parseIPv4_loop.simps [of s i p])
    then show ?thesis by simp
  next
    case True
    define s1 where "s1 = (if i > 0 then tl s else s)"
    obtain n c ok where d: "dtoi s1 = (n, c, ok)"
      by (cases "dtoi s1") auto
    from True "1.prems" d have
      ne: "s \<noteq> []" and dot: "\<not> (i > 0 \<and> hd s \<noteq> CHR ''.'')"
      and ok: "\<not> (\<not> ok \<or> n > 0xFF)"
      and rec: "parseIPv4_loop (drop c s1) (Suc i) (p[i := of_int n]) = Some (s', p')"
      by (simp_all add: parseIPv4_loop.simps [of s i p] s1_def Let_def split: if_splits)
    from "1.IH" [of s1 n "(c, ok)" c ok] True ne dot s1_def d ok rec
    obtain pre where pre: "drop c s1 = pre @ s'" "CHR '';'' \<notin> set pre"
      by auto
    from ok d dtoi_consumed [of s1 n c] have c: "CHR '';'' \<notin> set (take c s1)"
      by simp
    have s1: "s1 = take c s1 @ pre @ s'"
      using pre(1) by (metis append_take_drop_id)
    show ?thesis
    proof (cases "i > 0")
      case False
      with s1 have "s = (take c s1 @ pre) @ s'" by (simp add: s1_def)
      with c pre(2) show ?thesis
        by (intro exI [of _ "take c s1 @ pre"]) simp
    next
      case i: True
      with dot ne have "s = CHR ''.'' # s1"
        by (cases s) (auto simp: s1_def)
      with s1 have "s = (CHR ''.'' # take c s1 @ pre) @ s'" by simp
      with c pre(2) show ?thesis
        by (intro exI [of _ "CHR ''.'' # take c s1 @ pre"]) simp
    qed
  qed
qed

lemma parseIPv4_no_semicolon:
  "parseIPv4 s = Some ip \<Longrightarrow> CHR '';'' \<notin> set s"
proof -
  assume a: "parseIPv4 s = Some ip"
  then obtain p where "parseIPv4_loop s 0 (replicate IPv4len 0) = Some ([], p)"
    by (auto simp: parseIPv4_def split: option.splits if_splits)
  from parseIPv4_loop_consumed [OF this] show ?thesis by simp
qed

lemma parseIPv6_loop_consumed:
  "parseIPv6_loop s i e ip = Some (s', i', e', ip') \<Longrightarrow>
   \<exists>pre. s = pre @ s' \<and> CHR '';'' \<notin> set pre"
proof (induction s i e ip rule: parseIPv6_loop.induct)
  case (1 s i e ip)
  show ?case
  proof (cases "i < IPv6len")
    case False
    with "1.prems" have "s' = s"
      by (simp add: parseIPv6_loop.simps [of s i e ip])
    then show ?thesis by simp
  next
    case True
    obtain n c ok where x: "xtoi s = (n, c, ok)"
      by (cases "xtoi s") auto
    from True "1.prems" x have ok: "\<not> (\<not> ok \<or> n > 0xFFFF)"
      by (simp add: parseIPv6_loop.simps [of s i e ip] split: if_splits)
    with x xtoi_consumed [of s n c] have c: "CHR '';'' \<notin> set (take c s)"
      by simp
    show ?thesis
    proof (cases "c < length s \<and> s ! c = CHR ''.''")
      case dot: True
      with True "1.prems" x ok obtain ip4 where "parseIPv4 s = Some ip4" and "s' = []"
        by (auto simp: parseIPv6_loop.simps [of s i e ip] split: if_splits option.splits)
      with parseIPv4_no_semicolon [of s ip4] show ?thesis by simp
    next
      case nodot: False
      define s1 where "s1 = drop c s"
      define ip1 where "ip1 = ip[i := of_int (drop_bit 8 n), i + 1 := of_int n]"
      have s: "s = take c s @ s1" by (simp add: s1_def)
      have unfold: "parseIPv6_loop s i e ip =
         (if s1 = [] then Some (s1, i + 2, e, ip1)
          else if hd s1 \<noteq> CHR '':'' \<or> length s1 = 1 then None
          else if hd (tl s1) = CHR '':'' then
                 (if e \<noteq> None then None
                  else if tl (tl s1) = [] then Some (tl (tl s1), i + 2, Some (i + 2), ip1)
                       else parseIPv6_loop (tl (tl s1)) (i + 2) (Some (i + 2)) ip1)
               else parseIPv6_loop (tl s1) (i + 2) e ip1)"
        by (subst parseIPv6_loop.simps)
           (simp only: True x ok nodot prod.case simp_thms if_True if_False Let_def
              s1_def ip1_def)
      from "1.prems" have body:
        "(if s1 = [] then Some (s1, i + 2, e, ip1)
          else if hd s1 \<noteq> CHR '':'' \<or> length s1 = 1 then None
          else if hd (tl s1) = CHR '':'' then
                 (if e \<noteq> None then None
                  else if tl (tl s1) = [] then Some (tl (tl s1), i + 2, Some (i + 2), ip1)
                       else parseIPv6_loop (tl (tl s1)) (i + 2) (Some (i + 2)) ip1)
               else parseIPv6_loop (tl s1) (i + 2) e ip1) = Some (s', i', e', ip')"
        by (simp only: unfold)
      show ?thesis
      proof (cases "s1 = []")
        case True
        with body have "s' = []" by simp
        with s True c show ?thesis by simp
      next
        case s1ne: False
        with body have colon: "hd s1 = CHR '':''" "length s1 \<noteq> 1"
          by (auto split: if_splits)
        define s2 where "s2 = tl s1"
        from s1ne colon have s1: "s1 = CHR '':'' # s2"
          by (cases s1) (auto simp: s2_def)
        show ?thesis
        proof (cases "hd s2 = CHR '':''")
          case False
          with body s1ne colon have rec: "parseIPv6_loop s2 (i + 2) e ip1 = Some (s', i', e', ip')"
            by (simp add: s2_def)
          from "1.IH"(2) [of n "(c, ok)" c ok ip1 "i + 2" s1 s2]
            True x ok nodot s1ne colon False rec
          obtain pre where pre: "s2 = pre @ s'" "CHR '';'' \<notin> set pre"
            by (auto simp: s1_def s2_def ip1_def)
          from s s1 pre(1) have "s = (take c s @ CHR '':'' # pre) @ s'"
            by simp
          with c pre(2) show ?thesis
            by (intro exI [of _ "take c s @ CHR '':'' # pre"]) simp
        next
          case dbl: True
          define s3 where "s3 = tl s2"
          from colon s1 have "s2 \<noteq> []" by auto
          with dbl have s2: "s2 = CHR '':'' # s3"
            by (cases s2) (auto simp: s3_def)
          from body s1ne colon dbl have e: "e = None"
            by (auto simp: s2_def split: if_splits)
          show ?thesis
          proof (cases "s3 = []")
            case True
            with body s1ne colon dbl e have "s' = []"
              by (simp add: s2_def s3_def)
            moreover from s s1 s2 True have "s = take c s @ ''::''"
              by simp
            then have "set s = set (take c s @ ''::'')"
              by (rule arg_cong)
            with c have "CHR '';'' \<notin> set s"
              by simp
            ultimately show ?thesis
              by simp
          next
            case s3ne: False
            with body s1ne colon dbl e
            have rec: "parseIPv6_loop s3 (i + 2) (Some (i + 2)) ip1 = Some (s', i', e', ip')"
              by (simp add: s2_def s3_def)
            from "1.IH"(1) [of n "(c, ok)" c ok ip1 "i + 2" s1 s2 s3]
              True x ok nodot s1ne colon dbl e s3ne rec
            obtain pre where pre: "s3 = pre @ s'" "CHR '';'' \<notin> set pre"
              by (auto simp: s1_def s2_def s3_def ip1_def)
            from s s1 s2 pre(1) have "s = (take c s @ CHR '':'' # CHR '':'' # pre) @ s'"
              by simp
            with c pre(2) show ?thesis
              by (intro exI [of _ "take c s @ CHR '':'' # CHR '':'' # pre"]) simp
          qed
        qed
      qed
    qed
  qed
qed

lemma parseIPv6_rest_no_semicolon:
  "parseIPv6_rest s e ip = Some r \<Longrightarrow> CHR '';'' \<notin> set s"
proof -
  assume "parseIPv6_rest s e ip = Some r"
  then obtain i' e' ip' where "parseIPv6_loop s 0 e ip = Some ([], i', e', ip')"
    by (auto simp: parseIPv6_rest_def split: option.splits if_splits)
  from parseIPv6_loop_consumed [OF this] show ?thesis by simp
qed

lemma parseIPv6_no_semicolon:
  assumes "parseIPv6 s = Some r"
  shows "CHR '';'' \<notin> set s"
proof (cases "length s \<ge> 2 \<and> s ! 0 = CHR '':'' \<and> s ! 1 = CHR '':''")
  case False
  with assms have "parseIPv6_rest s None (replicate IPv6len 0) = Some r"
    by (auto simp: parseIPv6_def Let_def split: if_splits)
  then show ?thesis by (rule parseIPv6_rest_no_semicolon)
next
  case True
  then obtain t where s: "s = CHR '':'' # CHR '':'' # t"
    by (cases s; cases "tl s") auto
  show ?thesis
  proof (cases "t = []")
    case True
    with s show ?thesis by simp
  next
    case False
    with assms s have "parseIPv6_rest t (Some 0) (replicate IPv6len 0) = Some r"
      by (simp add: parseIPv6_def Let_def)
    from parseIPv6_rest_no_semicolon [OF this] s show ?thesis by simp
  qed
qed

lemma ParseIP_scan_no_semicolon:
  "ParseIP_scan s t = Some r \<Longrightarrow> CHR '';'' \<notin> set s"
  by (induction t)
     (auto split: if_splits dest: parseIPv4_no_semicolon parseIPv6_no_semicolon)

lemma ParseIP_no_semicolon:
  "ParseIP s = Some r \<Longrightarrow> CHR '';'' \<notin> set s"
  unfolding ParseIP_def by (rule ParseIP_scan_no_semicolon)

section \<open>Address node IDs and address extractors\<close>

lemma genSplit_loop_take:
  "j \<le> k \<Longrightarrow> j \<le> k' \<Longrightarrow>
   take j (genSplit_loop s sep sv k) = take j (genSplit_loop s sep sv k')"
proof (induction j arbitrary: s k k')
  case 0
  then show ?case by simp
next
  case (Suc j)
  from Suc.prems obtain k0 k0' where k: "k = Suc k0" "k' = Suc k0'" "j \<le> k0" "j \<le> k0'"
    by (cases k; cases k') auto
  show ?case
  proof (cases "Index s sep")
    case None
    with k show ?thesis by simp
  next
    case (Some m)
    with k Suc.IH [of k0 k0' "drop (m + length sep) s"] show ?thesis
      by simp
  qed
qed

lemma scope_fields_loop:
  "scope_fields s = genSplit_loop s '';'' 0 (count_list s CHR '';'')"
  by (simp add: scope_fields_def ScopeDelim_def Split_loop Count_single)

lemma length_scope_fields: "length (scope_fields s) = Suc (count_list s CHR '';'')"
  by (simp add: scope_fields_loop length_genSplit_loop_single)

lemma EndpointIDAddresser_fields:
  "EndpointIDAddresser s =
     Inr (if 3 \<le> length (scope_fields s) then ParseIP (scope_fields s ! 1) else None)"
proof -
  let ?n = "count_list s CHR '';''"
  let ?fields = "SplitN s ScopeDelim 3"
  have fields: "?fields = genSplit_loop s '';'' 0 2"
    by (simp add: SplitN_pos ScopeDelim_def)
  then have len: "length ?fields = Suc (min 2 ?n)"
    by (simp only: length_genSplit_loop_single)
  show ?thesis
  proof (cases "2 \<le> ?n")
    case False
    with len have "length ?fields \<noteq> 3" by simp
    with False show ?thesis
      by (simp add: EndpointIDAddresser_def Let_def length_scope_fields)
  next
    case True
    with len have len3: "length ?fields = 3" by simp
    from True have "take 2 ?fields = take 2 (scope_fields s)"
      unfolding fields scope_fields_loop by (intro genSplit_loop_take) simp_all
    then have "take 2 ?fields ! 1 = take 2 (scope_fields s) ! 1"
      by simp
    then have "?fields ! 1 = scope_fields s ! 1"
      by simp
    with len3 True show ?thesis
      by (simp add: EndpointIDAddresser_def Let_def length_scope_fields idx_def and_then_def)
  qed
qed

lemma AddressIDAddresser_fields:
  "AddressIDAddresser s =
     Inr (if length (scope_fields s) = 2 then ParseIP (scope_fields s ! 1) else None)"
proof -
  let ?n = "count_list s CHR '';''"
  let ?fields = "SplitN s ScopeDelim 2"
  have fields: "?fields = genSplit_loop s '';'' 0 1"
    by (simp add: SplitN_pos ScopeDelim_def)
  then have len: "length ?fields = Suc (min 1 ?n)"
    by (simp only: length_genSplit_loop_single)
  consider "?n = 0" | "?n = 1" | "2 \<le> ?n"
    by linarith
  then show ?thesis
  proof cases
    case 1
    with len have "length ?fields \<noteq> 2" by simp
    with 1 show ?thesis
      by (simp add: AddressIDAddresser_def Let_def length_scope_fields)
  next
    case 2
    with fields have "?fields = scope_fields s"
      by (simp only: scope_fields_loop)
    with 2 show ?thesis
      by (simp add: AddressIDAddresser_def Let_def length_scope_fields idx_def and_then_def)
  next
    case 3
    then have "CHR '';'' \<in> set s"
      using count_list_0_iff [of s "CHR '';''"] by auto
    then obtain a r where s: "s = a @ CHR '';'' # r" "CHR '';'' \<notin> set a"
      by (auto dest: split_list_first)
    with 3 have "CHR '';'' \<in> set r"
      using count_list_0_iff [of r "CHR '';''"] by auto
    then have "ParseIP r = None"
      using ParseIP_no_semicolon [of r] by (cases "ParseIP r") auto
    moreover from s fields have "?fields = [a, r]"
      by (simp add: Index_single_first)
    ultimately show ?thesis
      using 3 by (simp add: AddressIDAddresser_def Let_def length_scope_fields idx_def and_then_def)
  qed
qed

lemma isLoopback_8888: "\<not> isLoopback ''8.8.8.8''"
  by code_simp

lemma isLoopback_127001: "isLoopback ''127.0.0.1''"
  by code_simp

lemma isLoopback_10001: "\<not> isLoopback ''10.0.0.1''"
  by code_simp

lemma ParseIP_127001: "ParseIP ''127.0.0.1'' = Some (IPv4 127 0 0 1)"
  by code_simp

lemma ParseIP_localhost: "ParseIP ''localhost'' = None"
  by code_simp

lemma scope_fields_endpoint:
  "scope_fields ''h;127.0.0.1;80'' = [''h'', ''127.0.0.1'', ''80'']"
  by code_simp

lemma scope_fields_localhost: "scope_fields ''localhost'' = [''localhost'']"
  by code_simp

lemma isLoopback_iff:
  "isLoopback a \<longleftrightarrow> (\<exists>ip. ParseIP a = Some ip \<and> IsLoopback ip)"
  by (cases "ParseIP a") (simp_all add: isLoopback_def)

text \<open>
  Claim C2. \<open>MakeAddressNodeID\<close> puts the host ID in front exactly when the address
  parses as an IP literal that is a loopback address. So the ID of \<open>8.8.8.8\<close> is the
  same on any two hosts, the ID of \<open>127.0.0.1\<close> starts with the host ID and differs
  between two different delimiter-free host IDs, and an address that does not parse
  as an IP literal gets no host ID.
\<close>

theorem MakeAddressNodeID_scoping:
  "MakeAddressNodeID h a =
     (if \<exists>ip. ParseIP a = Some ip \<and> IsLoopback ip then h @ ScopeDelim @ a
      else ScopeDelim @ a) \<and>
   MakeAddressNodeID h1 ''8.8.8.8'' = MakeAddressNodeID h2 ''8.8.8.8'' \<and>
   MakeAddressNodeID h1 ''127.0.0.1'' = h1 @ ScopeDelim @ ''127.0.0.1'' \<and>
   (h1 \<noteq> h2 \<and> no_delims h1 \<and> no_delims h2 \<longrightarrow>
      MakeAddressNodeID h1 ''127.0.0.1'' \<noteq> MakeAddressNodeID h2 ''127.0.0.1'') \<and>
   (ParseIP a = None \<longrightarrow> MakeAddressNodeID h a = ScopeDelim @ a)"
proof -
  have general: "MakeAddressNodeID h a =
     (if \<exists>ip. ParseIP a = Some ip \<and> IsLoopback ip then h @ ScopeDelim @ a
      else ScopeDelim @ a)"
    by (auto simp: MakeAddressNodeID_def isLoopback_iff)
  have public: "MakeAddressNodeID h' ''8.8.8.8'' = ScopeDelim @ ''8.8.8.8''" for h'
    using isLoopback_8888 by (simp add: MakeAddressNodeID_def)
  have loopback: "MakeAddressNodeID h' ''127.0.0.1'' = h' @ ScopeDelim @ ''127.0.0.1''" for h'
    using isLoopback_127001 by (simp add: MakeAddressNodeID_def)
  have unparsed: "ParseIP a = None \<longrightarrow> MakeAddressNodeID h a = ScopeDelim @ a"
    by (simp add: MakeAddressNodeID_def isLoopback_def)
  from general public [of h1] public [of h2] loopback [of h1] loopback [of h2] unparsed
  show ?thesis
    by simp
qed

text \<open>Two hosts, the unresolved name \<open>localhost\<close>, a loopback and a public address.\<close>

theorem MakeAddressNodeID_scoping_witness:
  "ParseIP ''localhost'' = None \<and>
   MakeAddressNodeID ''hostA'' ''localhost'' = '';localhost'' \<and>
   ''hostA'' \<noteq> ''hostB'' \<and> no_delims ''hostA'' \<and> no_delims ''hostB'' \<and>
   MakeAddressNodeID ''hostA'' ''127.0.0.1'' = ''hostA;127.0.0.1'' \<and>
   MakeAddressNodeID ''hostA'' ''127.0.0.1'' \<noteq> MakeAddressNodeID ''hostB'' ''127.0.0.1'' \<and>
   MakeAddressNodeID ''hostA'' ''8.8.8.8'' = MakeAddressNodeID ''hostB'' ''8.8.8.8''"
proof -
  have h: "no_delims ''hostA''" "no_delims ''hostB''"
    by (simp_all add: no_delims_iff)
  have ne: "''hostA'' \<noteq> ''hostB''"
    by simp
  note t = MakeAddressNodeID_scoping [of "''hostA''" "''localhost''" "''hostA''" "''hostB''"]
  from t ParseIP_localhost
  have unparsed: "MakeAddressNodeID ''hostA'' ''localhost'' = '';localhost''"
    by (simp add: ScopeDelim_def)
  from t have scoped: "MakeAddressNodeID ''hostA'' ''127.0.0.1'' = ''hostA;127.0.0.1''"
    by (simp add: ScopeDelim_def)
  from t h ne
  have differ: "MakeAddressNodeID ''hostA'' ''127.0.0.1'' \<noteq> MakeAddressNodeID ''hostB'' ''127.0.0.1''"
    by blast
  from t have same: "MakeAddressNodeID ''hostA'' ''8.8.8.8'' = MakeAddressNodeID ''hostB'' ''8.8.8.8''"
    by blast
  from h ne ParseIP_localhost unparsed scoped differ same show ?thesis
    by blast
qed

text \<open>
  Claim C3 says that \<open>EndpointIDAddresser\<close> returns an IP only for an ID of exactly
  three scope-delimited fields. The source splits with \<open>SplitN(id, ScopeDelim, 3)\<close>,
  which cuts at the first two delimiters only: the pseudo node ID built from two
  addresses and a port has four fields, and the extractor returns its first
  address.
\<close>

theorem EndpointIDAddresser_four_fields:
  "MakePseudoNodeID [''10.0.0.1'', ''10.0.0.2'', ''80''] = ''pseudo;10.0.0.1;10.0.0.2;80'' \<and>
   length (scope_fields ''pseudo;10.0.0.1;10.0.0.2;80'') = 4 \<and>
   EndpointIDAddresser ''pseudo;10.0.0.1;10.0.0.2;80'' = Inr (Some (IPv4 10 0 0 1))"
  by code_simp

text \<open>
  Claim C3, amended. \<open>EndpointIDAddresser\<close> returns an IP value exactly when the ID has
  at least three scope-delimited fields and field 1 is a valid IP literal, and none
  otherwise; on the endpoint node ID of \<open>10.0.0.1\<close>, port \<open>80\<close>, of any host it
  returns the IP value of \<open>10.0.0.1\<close>. \<open>AddressIDAddresser\<close> returns an IP value
  exactly when the ID has exactly two scope-delimited fields and field 1 is a valid
  IP literal, and none otherwise, so none on a string of one field. Neither panics.
\<close>

theorem addressers_fields:
  "EndpointIDAddresser s =
     Inr (if 3 \<le> length (scope_fields s) then ParseIP (scope_fields s ! 1) else None) \<and>
   EndpointIDAddresser (MakeEndpointNodeID h ''10.0.0.1'' ''80'') = Inr (Some (IPv4 10 0 0 1)) \<and>
   AddressIDAddresser s =
     Inr (if length (scope_fields s) = 2 then ParseIP (scope_fields s ! 1) else None) \<and>
   (length (scope_fields s) = 1 \<longrightarrow> AddressIDAddresser s = Inr None)"
proof -
  have "MakeEndpointNodeID h ''10.0.0.1'' ''80'' = '';10.0.0.1;80''"
    using isLoopback_10001
    by (simp add: MakeEndpointNodeID_def MakeAddressNodeID_def ScopeDelim_def)
  moreover have "EndpointIDAddresser '';10.0.0.1;80'' = Inr (Some (IPv4 10 0 0 1))"
    by code_simp
  ultimately show ?thesis
    using EndpointIDAddresser_fields [of s] AddressIDAddresser_fields [of s]
    by simp
qed

text \<open>A string of one field and an endpoint node ID of three, in both extractors.\<close>

theorem addressers_fields_witness:
  "length (scope_fields ''localhost'') = 1 \<and>
   AddressIDAddresser ''localhost'' = Inr None \<and>
   EndpointIDAddresser ''localhost'' = Inr None \<and>
   3 \<le> length (scope_fields ''h;127.0.0.1;80'') \<and>
   EndpointIDAddresser ''h;127.0.0.1;80'' = Inr (Some (IPv4 127 0 0 1)) \<and>
   AddressIDAddresser ''h;127.0.0.1;80'' = Inr None"
  using addressers_fields [of "''localhost''" "''h''"]
    addressers_fields [of "''h;127.0.0.1;80''" "''h''"]
  by (simp add: scope_fields_localhost scope_fields_endpoint ParseIP_127001)

end
